theory Spec2Isabelle
  imports Main
begin

section \<open>Data model\<close>

text \<open>
  A Python \<open>str\<close> is the list of its code points; the model covers the code points
  below 256, one \<open>char\<close> each. A \<open>json\<close> is what a JSON text denotes: an object
  is the list of its members in the order of the text, a number with a fraction or
  an exponent is kept as the numeral that was read.
\<close>

datatype json =
    JNull
  | JBool bool
  | JInt int
  | JFloat string
  | JStr string
  | JArr "json list"
  | JObj "(string \<times> json) list"

text \<open>\<open>class Contact(BaseModel)\<close> with its two fields \<open>name: str\<close> and \<open>job: str\<close>.\<close>

record contact =
  name :: string
  job :: string

text \<open>
  The values of the running program. A \<open>dict\<close> is the list of its items in insertion
  order (Python keeps the keys of a dict pairwise distinct). \<open>PFunction f\<close> is the
  function that \<open>def f\<close> defines. \<open>PComposable a\<close> is the instance of
  \<open>class composable\<close> at address \<open>a\<close> of the heap. The two lambdas are the closures
  that \<open>composable.__or__\<close> builds, over \<open>other\<close> and over the address of \<open>self\<close>:
  \<open>PLambda_then other self\<close> is \<open>lambda value: other(self.func(value))\<close> and
  \<open>PLambda_const self other\<close> is \<open>lambda x: self.func(other)\<close>.
\<close>

datatype pyval =
    PNone
  | PBool bool
  | PInt int
  | PFloat string
  | PStr string
  | PList "pyval list"
  | PTuple "pyval list"
  | PDict "(pyval \<times> pyval) list"
  | PPath string
  | PContact contact
  | PFunction string
  | PComposable nat
  | PLambda_then pyval nat
  | PLambda_const nat pyval

datatype field_error = Missing | Not_a_string

text \<open>
  The exceptions the three modules can raise. \<open>FileNotFoundError\<close> carries the path,
  \<open>OSError\<close> the path and the reason of any other failure of \<open>open\<close> or \<open>read\<close> that
  the operating system reports, \<open>UnicodeDecodeError\<close> the path of the file whose bytes
  are not text, \<open>ValueError\<close> its message,
  \<open>JSONDecodeError\<close> the document that was decoded and the offset in it,
  \<open>ValidationError\<close> the record that was validated and its failing fields,
  \<open>Raised\<close> any other exception of a user function. In Python \<open>FileNotFoundError\<close>
  is an \<open>OSError\<close> (of which \<open>IOError\<close> is another name), and \<open>UnicodeDecodeError\<close>
  is a \<open>ValueError\<close>, which is not an \<open>OSError\<close>.
\<close>

datatype error =
    FileNotFoundError string
  | OSError string string
  | UnicodeDecodeError string
  | ValueError string
  | JSONDecodeError string nat
  | TypeError string
  | ValidationError "(pyval \<times> pyval) list" "(string \<times> field_error) list"
  | Raised string

text \<open>
  The file system as \<open>open(path)\<close> followed by \<open>infile.read()\<close> finds it at a path:
  \<^item> \<open>Absent\<close>: a component of the path does not exist (\<open>ENOENT\<close>);
  \<^item> \<open>Unreadable why\<close>: the operating system refuses \<open>open\<close> or \<open>read\<close> for another
    reason, such as a component that is not a directory (\<open>ENOTDIR\<close>), a directory in
    the place of the file (\<open>EISDIR\<close>) or a missing permission (\<open>EACCES\<close>);
  \<^item> \<open>Undecodable\<close>: the file is read, and its bytes are not text in the encoding of
    the platform;
  \<^item> \<open>Text buf\<close>: \<open>read()\<close> returns \<open>buf\<close>, with the line ends as Python translates
    them.

  No file name holds a NUL character, so a file system has no file at a path with one
  (its state there is \<open>Absent\<close>); \<open>open\<close> refuses such a path with \<open>ValueError\<close>
  before it asks the operating system.
\<close>

datatype file_state = Absent | Unreadable string | Undecodable | Text string

type_synonym filesystem = "string \<Rightarrow> file_state"

definition open_read :: "filesystem \<Rightarrow> string \<Rightarrow> error + string" where
  "open_read fs path =
     (case fs path of
        Absent \<Rightarrow>
          if CHR 0x00 \<in> set path then Inl (ValueError ''embedded null byte'')
          else Inl (FileNotFoundError path)
      | Unreadable why \<Rightarrow> Inl (OSError path why)
      | Undecodable \<Rightarrow> Inl (UnicodeDecodeError path)
      | Text buf \<Rightarrow> Inr buf)"

section \<open>Library functions the modules call\<close>

text \<open>
  A list comprehension \<open>[f(x) for x in xs]\<close> over a function that can raise: the
  elements are evaluated from left to right and the first exception leaves the
  comprehension, with no list built.
\<close>

fun comprehension :: "('a \<Rightarrow> error + 'b) \<Rightarrow> 'a list \<Rightarrow> error + 'b list" where
  "comprehension f [] = Inr []"
| "comprehension f (x # xs) =
     (case f x of
        Inl e \<Rightarrow> Inl e
      | Inr y \<Rightarrow> (case comprehension f xs of Inl e \<Rightarrow> Inl e | Inr ys \<Rightarrow> Inr (y # ys)))"

text \<open>\<open>str.isspace\<close> on one code point below 256, which is what \<open>str.strip()\<close> removes.\<close>

definition isspace :: "char \<Rightarrow> bool" where
  "isspace c \<longleftrightarrow>
     c = CHR 0x09 \<or> c = CHR 0x0A \<or> c = CHR 0x0B \<or> c = CHR 0x0C \<or> c = CHR 0x0D \<or>
     c = CHR 0x1C \<or> c = CHR 0x1D \<or> c = CHR 0x1E \<or> c = CHR 0x1F \<or> c = CHR 0x20 \<or>
     c = CHR 0x85 \<or> c = CHR 0xA0"

definition strip :: "string \<Rightarrow> string" where
  "strip s = rev (dropWhile isspace (rev (dropWhile isspace s)))"

text \<open>\<open>buf.split("\n")\<close>: the segments between the newlines, the empty ones included.\<close>

fun str_split :: "string \<Rightarrow> string list" where
  "str_split [] = [[]]"
| "str_split (c # cs) =
     (if c = CHR 0x0A then [] # str_split cs
      else (case str_split cs of
              [] \<Rightarrow> [[c]]
            | l # ls \<Rightarrow> (c # l) # ls))"

text \<open>\<open>"\n".join(segments)\<close>, the inverse of the split.\<close>

fun str_join :: "string list \<Rightarrow> string" where
  "str_join [] = []"
| "str_join [l] = l"
| "str_join (l # ls) = l @ CHR 0x0A # str_join ls"

text \<open>
  The \<open>/\<close> of \<open>pathlib\<close> on POSIX, on the spelling of the paths: an absolute right
  operand replaces the left one. \<open>pathlib\<close> also collapses repeated separators, which
  does not change the file a path names.
\<close>

definition path_join :: "string \<Rightarrow> string \<Rightarrow> string" where
  "path_join a b = (case b of c # _ \<Rightarrow> if c = CHR ''/'' then b else a @ ''/'' @ b | [] \<Rightarrow> a)"

text \<open>The Python value that \<open>json.loads\<close> builds for what the text denotes.\<close>

fun dict_set :: "(pyval \<times> pyval) list \<Rightarrow> pyval \<Rightarrow> pyval \<Rightarrow> (pyval \<times> pyval) list" where
  "dict_set [] k v = [(k, v)]"
| "dict_set ((k', v') # kvs) k v =
     (if k' = k then (k', v) # kvs else (k', v') # dict_set kvs k v)"

fun py_of_json :: "json \<Rightarrow> pyval" where
  "py_of_json JNull = PNone"
| "py_of_json (JBool b) = PBool b"
| "py_of_json (JInt i) = PInt i"
| "py_of_json (JFloat x) = PFloat x"
| "py_of_json (JStr s) = PStr s"
| "py_of_json (JArr xs) = PList (map py_of_json xs)"
| "py_of_json (JObj kvs) =
     PDict (foldl (\<lambda>d kv. dict_set d (PStr (fst kv)) (py_of_json (snd kv))) [] kvs)"

text \<open>
  \<open>json.loads\<close> is a parameter of the model: a decoder maps a document to what it
  denotes, or to the offset at which decoding failed. \<open>loads\<close> returns the Python
  value, or raises \<open>JSONDecodeError\<close> with the document and that offset.
\<close>

type_synonym decoder = "string \<Rightarrow> nat + json"

definition loads :: "decoder \<Rightarrow> string \<Rightarrow> error + pyval" where
  "loads dec s =
     (case dec s of Inl pos \<Rightarrow> Inl (JSONDecodeError s pos) | Inr v \<Rightarrow> Inr (py_of_json v))"

text \<open>
  Modelled from the spec: the validation that pydantic's \<open>BaseModel\<close> runs when
  \<open>Contact\<close> is constructed is library code outside the repository. The spec (4.4):
  for each record, check that the \<open>name\<close> and \<open>job\<close> keys exist and hold string
  values, and construct a \<open>Contact\<close>; fail with a \<open>ValidationError\<close> identifying the
  offending record and the missing or mistyped fields otherwise. Keys other than the
  two declared fields are ignored.
\<close>

definition field_errors :: "(pyval \<times> pyval) list \<Rightarrow> string \<Rightarrow> (string \<times> field_error) list" where
  "field_errors rec k =
     (case map_of rec (PStr k) of
        None \<Rightarrow> [(k, Missing)]
      | Some (PStr s) \<Rightarrow> []
      | Some _ \<Rightarrow> [(k, Not_a_string)])"

definition validate :: "(pyval \<times> pyval) list \<Rightarrow> error + contact" where
  "validate rec =
     (case (map_of rec (PStr ''name''), map_of rec (PStr ''job'')) of
        (Some (PStr n), Some (PStr j)) \<Rightarrow> Inr \<lparr>name = n, job = j\<rparr>
      | _ \<Rightarrow> Inl (ValidationError rec (field_errors rec ''name'' @ field_errors rec ''job'')))"

text \<open>
  \<open>Contact(**rec)\<close>: the \<open>**\<close> of Python raises \<open>TypeError\<close> unless \<open>rec\<close> is a
  mapping whose keys are strings; the items become the keyword arguments.
\<close>

definition is_str :: "pyval \<Rightarrow> bool" where
  "is_str v = (case v of PStr s \<Rightarrow> True | _ \<Rightarrow> False)"

fun Contact :: "pyval \<Rightarrow> error + contact" where
  "Contact (PDict rec) =
     (if list_all (\<lambda>kv. is_str (fst kv)) rec then validate rec
      else Inl (TypeError ''keywords must be strings''))"
| "Contact _ = Inl (TypeError ''argument after ** must be a mapping'')"

section \<open>step_2.py\<close>

definition create_filepath :: "string \<Rightarrow> string \<Rightarrow> string" where
  "create_filepath here area =
     path_join (path_join (path_join here ''..'') ''data_files'') (area @ ''.txt'')"

definition read_lines :: "filesystem \<Rightarrow> string \<Rightarrow> error + string list" where
  "read_lines fs file_path =
     (case open_read fs file_path of
        Inl e \<Rightarrow> Inl e
      | Inr buf \<Rightarrow> Inr (filter (\<lambda>l. strip l \<noteq> []) (str_split buf)))"

definition parse_dicts :: "decoder \<Rightarrow> string list \<Rightarrow> error + pyval list" where
  "parse_dicts dec lines = comprehension (loads dec) lines"

definition convert_to_contacts :: "pyval list \<Rightarrow> error + contact list" where
  "convert_to_contacts dicts = comprehension Contact dicts"

text \<open>
  \<open>get_people\<close> of step\_2.py. \<open>here\<close> is \<open>Path(__file__).parents[0]\<close>, the directory
  of the three modules.
\<close>

definition step_2_get_people ::
  "decoder \<Rightarrow> filesystem \<Rightarrow> string \<Rightarrow> string \<Rightarrow> error + contact list" where
  "step_2_get_people dec fs here area =
     (case read_lines fs (create_filepath here area) of
        Inl e \<Rightarrow> Inl e
      | Inr lines \<Rightarrow>
          (case parse_dicts dec lines of
             Inl e \<Rightarrow> Inl e
           | Inr dicts \<Rightarrow> convert_to_contacts dicts))"

section \<open>step_1.py\<close>

definition step_1_get_people ::
  "decoder \<Rightarrow> filesystem \<Rightarrow> string \<Rightarrow> string \<Rightarrow> error + contact list" where
  "step_1_get_people dec fs here area =
     (let full_filename =
            path_join (path_join (path_join here ''..'') ''data_files'') (area @ ''.txt'')
      in case open_read fs full_filename of
           Inl e \<Rightarrow> Inl e
         | Inr buf \<Rightarrow>
             (let lines = filter (\<lambda>l. strip l \<noteq> []) (str_split buf)
              in case comprehension (loads dec) lines of
                   Inl e \<Rightarrow> Inl e
                 | Inr json_recs \<Rightarrow> comprehension Contact json_recs))"

section \<open>step_3.py: class composable\<close>

text \<open>
  The functions that \<open>def\<close> defines are given by an environment: the result of the
  function of that name on a list of arguments, a value or an exception. The heap holds
  the instances of \<open>class composable\<close>: the entry at address \<open>a\<close> is the attribute
  \<open>func\<close> of the instance \<open>PComposable a\<close>. The class assigns \<open>self.func\<close> in
  \<open>__init__\<close> and nowhere else.
\<close>

type_synonym env = "string \<Rightarrow> pyval list \<Rightarrow> error + pyval"

type_synonym heap = "pyval list"

text \<open>\<open>callable(v)\<close>: functions, lambdas, and instances of a class with \<open>__call__\<close>.\<close>

fun callable :: "pyval \<Rightarrow> bool" where
  "callable (PFunction f) = True"
| "callable (PComposable a) = True"
| "callable (PLambda_then other self) = True"
| "callable (PLambda_const self other) = True"
| "callable _ = False"

text \<open>
  \<open>v(*args)\<close>. For an instance this is \<open>composable.__call__\<close>, which returns
  \<open>self.func(*args)\<close>; the lambdas take exactly one argument. An instance is built
  from a \<open>func\<close> that exists already and is never assigned again, so \<open>func\<close> refers to
  instances at lower addresses only: it is called in the heap below its instance, which
  \<open>call_below_instance\<close> shows to be the same as calling it in the whole heap.
\<close>

fun call :: "env \<Rightarrow> heap \<Rightarrow> pyval \<Rightarrow> pyval list \<Rightarrow> error + pyval" where
  "call env h (PFunction f) args = env f args"
| "call env h (PComposable self) args =
     (if self < length h then call env (take self h) (h ! self) args
      else Inl (Raised ''no such object''))"
| "call env h (PLambda_then other self) args =
     (case args of
        [value] \<Rightarrow>
          (if self < length h then
             (case call env (take self h) (h ! self) [value] of
                Inl e \<Rightarrow> Inl e
              | Inr r \<Rightarrow> call env h other [r])
           else Inl (Raised ''no such object''))
      | _ \<Rightarrow> Inl (TypeError ''<lambda>() takes 1 positional argument''))"
| "call env h (PLambda_const self other) args =
     (case args of
        [x] \<Rightarrow>
          (if self < length h then call env (take self h) (h ! self) [other]
           else Inl (Raised ''no such object''))
      | _ \<Rightarrow> Inl (TypeError ''<lambda>() takes 1 positional argument''))"
| "call env h _ args = Inl (TypeError ''object is not callable'')"

text \<open>\<open>self.func(*args)\<close> for the instance at address \<open>self\<close>.\<close>

definition self_func :: "env \<Rightarrow> heap \<Rightarrow> nat \<Rightarrow> pyval list \<Rightarrow> error + pyval" where
  "self_func env h self args =
     (if self < length h then call env (take self h) (h ! self) args
      else Inl (Raised ''no such object''))"

text \<open>\<open>composable(func)\<close>: \<open>__init__\<close> stores \<open>func\<close> in a new instance.\<close>

definition composable :: "heap \<Rightarrow> pyval \<Rightarrow> pyval \<times> heap" where
  "composable h func = (PComposable (length h), h @ [func])"

text \<open>\<open>i() if callable(i) else i\<close>\<close>

definition force :: "env \<Rightarrow> heap \<Rightarrow> pyval \<Rightarrow> error + pyval" where
  "force env h i = (if callable i then call env h i [] else Inr i)"

definition force_item :: "env \<Rightarrow> heap \<Rightarrow> pyval \<times> pyval \<Rightarrow> error + pyval \<times> pyval" where
  "force_item env h kv =
     (case force env h (snd kv) of Inl e \<Rightarrow> Inl e | Inr v \<Rightarrow> Inr (fst kv, v))"

text \<open>
  \<open>composable.__ror__(self, other)\<close>, the value of \<open>other | self\<close>. \<open>force_args\<close>
  is \<open>args\<close> after the two \<open>if\<close> statements: the comprehension over a list or a
  tuple builds a list, which the second \<open>isinstance\<close> then finds not to be a dict.
\<close>

definition force_args :: "env \<Rightarrow> heap \<Rightarrow> pyval \<Rightarrow> error + pyval" where
  "force_args env h other =
     (case other of
        PList xs \<Rightarrow>
          (case comprehension (force env h) xs of Inl e \<Rightarrow> Inl e | Inr ys \<Rightarrow> Inr (PList ys))
      | PTuple xs \<Rightarrow>
          (case comprehension (force env h) xs of Inl e \<Rightarrow> Inl e | Inr ys \<Rightarrow> Inr (PList ys))
      | PDict kvs \<Rightarrow>
          (case comprehension (force_item env h) kvs of
             Inl e \<Rightarrow> Inl e
           | Inr kvs' \<Rightarrow> Inr (PDict kvs'))
      | _ \<Rightarrow> Inr other)"

definition composable_ror :: "env \<Rightarrow> heap \<Rightarrow> nat \<Rightarrow> pyval \<Rightarrow> error + pyval" where
  "composable_ror env h self other =
     (case force_args env h other of
        Inl e \<Rightarrow> Inl e
      | Inr args \<Rightarrow> self_func env h self [args])"

text \<open>\<open>composable.__or__(self, other)\<close>, the value of \<open>self | other\<close>, and the new heap.\<close>

definition composable_or :: "heap \<Rightarrow> nat \<Rightarrow> pyval \<Rightarrow> pyval \<times> heap" where
  "composable_or h self other =
     (if callable other then composable h (PLambda_then other self)
      else composable h (PLambda_const self other))"

section \<open>step_3.py: the endpoint\<close>

text \<open>
  The four functions of step\_3.py have the bodies of those of step\_2.py. As function
  objects they take a list of arguments; they are modelled on one argument of the
  annotated type, which is what \<open>get_people\<close> passes, and \<open>TypeError\<close> stands for any
  other call.
\<close>

fun step_3_create_filepath :: "string \<Rightarrow> pyval list \<Rightarrow> error + pyval" where
  "step_3_create_filepath here [PStr area] = Inr (PPath (create_filepath here area))"
| "step_3_create_filepath here _ = Inl (TypeError ''create_filepath(area: str)'')"

fun step_3_read_lines :: "filesystem \<Rightarrow> pyval list \<Rightarrow> error + pyval" where
  "step_3_read_lines fs [PPath file_path] =
     (case read_lines fs file_path of
        Inl e \<Rightarrow> Inl e
      | Inr lines \<Rightarrow> Inr (PList (map PStr lines)))"
| "step_3_read_lines fs _ = Inl (TypeError ''read_lines(file_path: Path)'')"

fun json_loads :: "decoder \<Rightarrow> pyval \<Rightarrow> error + pyval" where
  "json_loads dec (PStr line) = loads dec line"
| "json_loads dec _ = Inl (TypeError ''the JSON object must be str, bytes or bytearray'')"

fun step_3_parse_dicts :: "decoder \<Rightarrow> pyval list \<Rightarrow> error + pyval" where
  "step_3_parse_dicts dec [PList lines] =
     (case comprehension (json_loads dec) lines of
        Inl e \<Rightarrow> Inl e
      | Inr dicts \<Rightarrow> Inr (PList dicts))"
| "step_3_parse_dicts dec _ = Inl (TypeError ''parse_dicts(lines: list[str])'')"

fun step_3_convert_to_contacts :: "pyval list \<Rightarrow> error + pyval" where
  "step_3_convert_to_contacts [PList dicts] =
     (case comprehension Contact dicts of
        Inl e \<Rightarrow> Inl e
      | Inr contacts \<Rightarrow> Inr (PList (map PContact contacts)))"
| "step_3_convert_to_contacts _ = Inl (TypeError ''convert_to_contacts(dicts: list[dict])'')"

definition step_3_env :: "decoder \<Rightarrow> filesystem \<Rightarrow> string \<Rightarrow> env" where
  "step_3_env dec fs here f args =
     (if f = ''create_filepath'' then step_3_create_filepath here args
      else if f = ''read_lines'' then step_3_read_lines fs args
      else if f = ''parse_dicts'' then step_3_parse_dicts dec args
      else if f = ''convert_to_contacts'' then step_3_convert_to_contacts args
      else Inl (Raised ''NameError''))"

text \<open>
  The decorators run when the module is loaded, in the order of the file: the name
  \<open>create_filepath\<close> is bound to the instance at address 0, \<open>read_lines\<close> to 1,
  \<open>parse_dicts\<close> to 2 and \<open>convert_to_contacts\<close> to 3.
\<close>

definition step_3_module :: heap where
  "step_3_module =
     foldl (\<lambda>h f. snd (composable h (PFunction f))) []
       [''create_filepath'', ''read_lines'', ''parse_dicts'', ''convert_to_contacts'']"

text \<open>
  \<open>area | create_filepath | read_lines | parse_dicts | convert_to_contacts\<close>. The
  operator associates to the left, and each left operand (a \<open>str\<close>, a \<open>Path\<close>, a
  \<open>list\<close>) has no \<open>__or__\<close> that takes a \<open>composable\<close>, so each \<open>|\<close> is the
  \<open>__ror__\<close> of the instance on its right.
\<close>

definition step_3_get_people ::
  "decoder \<Rightarrow> filesystem \<Rightarrow> string \<Rightarrow> string \<Rightarrow> error + pyval" where
  "step_3_get_people dec fs here area =
     (let env = step_3_env dec fs here; h = step_3_module
      in case composable_ror env h 0 (PStr area) of
           Inl e \<Rightarrow> Inl e
         | Inr file_path \<Rightarrow>
             (case composable_ror env h 1 file_path of
                Inl e \<Rightarrow> Inl e
              | Inr lines \<Rightarrow>
                  (case composable_ror env h 2 lines of
                     Inl e \<Rightarrow> Inl e
                   | Inr dicts \<Rightarrow> composable_ror env h 3 dicts)))"

section \<open>A decoder of JSON text\<close>

text \<open>
  An instance of the decoder, after the scanner of Python's \<open>json\<close> module: whitespace,
  the literals, numbers, strings with their escapes, arrays and objects. The scanning
  functions return the value and the rest of the text, or the rest of the text where
  they stopped. A \<open>\u\<close> escape of a code point above 255 is outside the alphabet of
  the model and stops the scanner. The recursion is bounded by the length of the text.
\<close>

definition json_ws :: "char \<Rightarrow> bool" where
  "json_ws c \<longleftrightarrow> c = CHR '' '' \<or> c = CHR 0x09 \<or> c = CHR 0x0A \<or> c = CHR 0x0D"

definition skip_ws :: "string \<Rightarrow> string" where
  "skip_ws s = dropWhile json_ws s"

fun index_of :: "char \<Rightarrow> string \<Rightarrow> nat option" where
  "index_of c [] = None"
| "index_of c (d # ds) = (if c = d then Some 0 else map_option Suc (index_of c ds))"

definition is_digit :: "char \<Rightarrow> bool" where
  "is_digit c = (index_of c ''0123456789'' \<noteq> None)"

definition digit_val :: "char \<Rightarrow> nat" where
  "digit_val c = (case index_of c ''0123456789'' of Some n \<Rightarrow> n | None \<Rightarrow> 0)"

definition hex_val :: "char \<Rightarrow> nat option" where
  "hex_val c =
     (case index_of c ''0123456789abcdef'' of
        Some n \<Rightarrow> Some n
      | None \<Rightarrow> map_option (\<lambda>n. n + 10) (index_of c ''ABCDEF''))"

definition escape_char :: "char \<Rightarrow> char option" where
  "escape_char e =
     (if e = CHR 0x22 then Some (CHR 0x22)
      else if e = CHR 0x5C then Some (CHR 0x5C)
      else if e = CHR ''/'' then Some (CHR ''/'')
      else if e = CHR ''b'' then Some (CHR 0x08)
      else if e = CHR ''f'' then Some (CHR 0x0C)
      else if e = CHR ''n'' then Some (CHR 0x0A)
      else if e = CHR ''r'' then Some (CHR 0x0D)
      else if e = CHR ''t'' then Some (CHR 0x09)
      else None)"

definition decode_uXXXX :: "string \<Rightarrow> char option" where
  "decode_uXXXX s =
     (case map hex_val (take 4 s) of
        [Some a, Some b, Some c, Some d] \<Rightarrow>
          (if a = 0 \<and> b = 0 then Some (char_of (16 * c + d)) else None)
      | _ \<Rightarrow> None)"

text \<open>\<open>scanstring begin s\<close> scans after the opening quote; \<open>begin\<close> is the text from that quote.\<close>

fun scanstring :: "string \<Rightarrow> string \<Rightarrow> string + string \<times> string" where
  "scanstring begin [] = Inl begin"
| "scanstring begin [c] = (if c = CHR 0x22 then Inr ([], []) else Inl begin)"
| "scanstring begin (c # e # cs) =
     (if c = CHR 0x22 then Inr ([], e # cs)
      else if c = CHR 0x5C then
        (if e = CHR ''u'' then
           (case decode_uXXXX cs of
              None \<Rightarrow> Inl (c # e # cs)
            | Some x \<Rightarrow>
                (case scanstring begin (drop 4 cs) of
                   Inl r \<Rightarrow> Inl r
                 | Inr (str, rest) \<Rightarrow> Inr (x # str, rest)))
         else
           (case escape_char e of
              None \<Rightarrow> Inl (e # cs)
            | Some x \<Rightarrow>
                (case scanstring begin cs of
                   Inl r \<Rightarrow> Inl r
                 | Inr (str, rest) \<Rightarrow> Inr (x # str, rest))))
      else if index_of c (map char_of [0 ..< (32::nat)]) \<noteq> None then Inl (c # e # cs)
      else
        (case scanstring begin (e # cs) of
           Inl r \<Rightarrow> Inl r
         | Inr (str, rest) \<Rightarrow> Inr (c # str, rest)))"

text \<open>
  The numeral at the head of the text: an integer part, then a fraction and an
  exponent when there are any. Without both it denotes an \<open>int\<close>.
\<close>

definition digits_val :: "string \<Rightarrow> int" where
  "digits_val ds = int (foldl (\<lambda>n d. 10 * n + digit_val d) 0 ds)"

definition match_fraction :: "string \<Rightarrow> string" where
  "match_fraction s =
     (case s of
        c # cs \<Rightarrow> if c = CHR ''.'' \<and> takeWhile is_digit cs \<noteq> [] then c # takeWhile is_digit cs else []
      | [] \<Rightarrow> [])"

definition match_exponent :: "string \<Rightarrow> string" where
  "match_exponent s =
     (case s of
        c # cs \<Rightarrow>
          if c = CHR ''e'' \<or> c = CHR ''E'' then
            (let sign = (case cs of d # ds \<Rightarrow> if d = CHR ''+'' \<or> d = CHR ''-'' then [d] else [] | [] \<Rightarrow> []);
                 ds = takeWhile is_digit (drop (length sign) cs)
             in if ds \<noteq> [] then c # sign @ ds else [])
          else []
      | [] \<Rightarrow> [])"

definition match_number :: "string \<Rightarrow> (json \<times> string) option" where
  "match_number s =
     (let sign = (case s of c # cs \<Rightarrow> if c = CHR ''-'' then [c] else [] | [] \<Rightarrow> []);
          s1 = drop (length sign) s;
          integer = (case s1 of
                       [] \<Rightarrow> []
                     | d # ds \<Rightarrow> if d = CHR ''0'' then [d]
                                else if is_digit d then d # takeWhile is_digit ds
                                else [])
      in if integer = [] then None
         else
           (let s2 = drop (length integer) s1;
                frac = match_fraction s2;
                s3 = drop (length frac) s2;
                exp = match_exponent s3;
                s4 = drop (length exp) s3
            in if frac = [] \<and> exp = []
               then Some (JInt (if sign = [] then digits_val integer else - digits_val integer), s4)
               else Some (JFloat (sign @ integer @ frac @ exp), s4)))"

definition scan_literal :: "string \<Rightarrow> string + json \<times> string" where
  "scan_literal s =
     (if take 4 s = ''null'' then Inr (JNull, drop 4 s)
      else if take 4 s = ''true'' then Inr (JBool True, drop 4 s)
      else if take 5 s = ''false'' then Inr (JBool False, drop 5 s)
      else (case match_number s of
              Some r \<Rightarrow> Inr r
            | None \<Rightarrow>
                if take 3 s = ''NaN'' then Inr (JFloat ''NaN'', drop 3 s)
                else if take 8 s = ''Infinity'' then Inr (JFloat ''Infinity'', drop 8 s)
                else if take 9 s = ''-Infinity'' then Inr (JFloat ''-Infinity'', drop 9 s)
                else Inl s))"

fun scan_once :: "nat \<Rightarrow> string \<Rightarrow> string + json \<times> string"
  and scan_array :: "nat \<Rightarrow> string \<Rightarrow> string + json list \<times> string"
  and scan_object :: "nat \<Rightarrow> string \<Rightarrow> string + (string \<times> json) list \<times> string"
where
  "scan_once 0 s = Inl s"
| "scan_once (Suc n) [] = Inl []"
| "scan_once (Suc n) (c # cs) =
     (if c = CHR 0x22 then
        (case scanstring (c # cs) cs of
           Inl r \<Rightarrow> Inl r
         | Inr (str, rest) \<Rightarrow> Inr (JStr str, rest))
      else if c = CHR ''{'' then
        (case skip_ws cs of
           [] \<Rightarrow> Inl []
         | d # ds \<Rightarrow>
             if d = CHR ''}'' then Inr (JObj [], ds)
             else (case scan_object n (d # ds) of
                     Inl r \<Rightarrow> Inl r
                   | Inr (members, rest) \<Rightarrow> Inr (JObj members, rest)))
      else if c = CHR ''['' then
        (case skip_ws cs of
           [] \<Rightarrow> Inl []
         | d # ds \<Rightarrow>
             if d = CHR '']'' then Inr (JArr [], ds)
             else (case scan_array n (d # ds) of
                     Inl r \<Rightarrow> Inl r
                   | Inr (elements, rest) \<Rightarrow> Inr (JArr elements, rest)))
      else scan_literal (c # cs))"
| "scan_array 0 s = Inl s"
| "scan_array (Suc n) s =
     (case scan_once n s of
        Inl r \<Rightarrow> Inl r
      | Inr (v, rest) \<Rightarrow>
          (case skip_ws rest of
             [] \<Rightarrow> Inl []
           | d # ds \<Rightarrow>
               if d = CHR '']'' then Inr ([v], ds)
               else if d = CHR '','' then
                 (case scan_array n (skip_ws ds) of
                    Inl r \<Rightarrow> Inl r
                  | Inr (vs, rest') \<Rightarrow> Inr (v # vs, rest'))
               else Inl (d # ds)))"
| "scan_object 0 s = Inl s"
| "scan_object (Suc n) [] = Inl []"
| "scan_object (Suc n) (c # cs) =
     (if c \<noteq> CHR 0x22 then Inl (c # cs)
      else
        (case scanstring (c # cs) cs of
           Inl r \<Rightarrow> Inl r
         | Inr (key, rest) \<Rightarrow>
             (case skip_ws rest of
                [] \<Rightarrow> Inl []
              | d # ds \<Rightarrow>
                  if d \<noteq> CHR '':'' then Inl (d # ds)
                  else
                    (case scan_once n (skip_ws ds) of
                       Inl r \<Rightarrow> Inl r
                     | Inr (v, rest') \<Rightarrow>
                         (case skip_ws rest' of
                            [] \<Rightarrow> Inl []
                          | d' # ds' \<Rightarrow>
                              if d' = CHR ''}'' then Inr ([(key, v)], ds')
                              else if d' = CHR '','' then
                                (case scan_object n (skip_ws ds') of
                                   Inl r \<Rightarrow> Inl r
                                 | Inr (members, rest'') \<Rightarrow> Inr ((key, v) # members, rest''))
                              else Inl (d' # ds'))))))"

definition json_decode :: decoder where
  "json_decode s =
     (case scan_once (2 * length s + 2) (skip_ws s) of
        Inl r \<Rightarrow> Inl (length s - length r)
      | Inr (v, rest) \<Rightarrow>
          (if skip_ws rest = [] then Inr v else Inl (length s - length (skip_ws rest))))"

section \<open>Notions of the specification\<close>

text \<open>
  A record holds a string under the key \<open>k\<close>, and the string it holds there.
\<close>

definition has_str :: "(pyval \<times> pyval) list \<Rightarrow> string \<Rightarrow> bool" where
  "has_str rec k = (case map_of rec (PStr k) of Some (PStr s) \<Rightarrow> True | _ \<Rightarrow> False)"

definition str_at :: "(pyval \<times> pyval) list \<Rightarrow> string \<Rightarrow> string" where
  "str_at rec k = (case map_of rec (PStr k) of Some (PStr s) \<Rightarrow> s | _ \<Rightarrow> [])"

text \<open>
  A well-formed line: JSON text that denotes an object whose \<open>name\<close> and \<open>job\<close> are
  strings. \<open>line_contact\<close> is the contact such a line describes.
\<close>

definition line_contact :: "decoder \<Rightarrow> string \<Rightarrow> contact option" where
  "line_contact dec l =
     (case loads dec l of
        Inr (PDict rec) \<Rightarrow>
          (if has_str rec ''name'' \<and> has_str rec ''job''
           then Some \<lparr>name = str_at rec ''name'', job = str_at rec ''job''\<rparr>
           else None)
      | _ \<Rightarrow> None)"


text \<open>
  A value lives in a heap of \<open>n\<close> instances when the instances that calling it
  reaches have addresses below \<open>n\<close>. A heap is well formed when the \<open>func\<close> of each
  instance lives in the heap below the instance.
\<close>

fun lives_in :: "nat \<Rightarrow> pyval \<Rightarrow> bool" where
  "lives_in n (PComposable a) = (a < n)"
| "lives_in n (PLambda_then other self) = (self < n \<and> lives_in n other)"
| "lives_in n (PLambda_const self other) = (self < n)"
| "lives_in n _ = True"

definition heap_ok :: "heap \<Rightarrow> bool" where
  "heap_ok h = list_all (\<lambda>a. lives_in a (h ! a)) [0 ..< length h]"

text \<open>
  The elements of a container that \<open>__ror__\<close> looks at: those of a list or a tuple,
  and the values of a dict.
\<close>

definition elements :: "pyval \<Rightarrow> pyval list" where
  "elements v =
     (case v of PList xs \<Rightarrow> xs | PTuple xs \<Rightarrow> xs | PDict kvs \<Rightarrow> map snd kvs | _ \<Rightarrow> [])"


text \<open>
  An element that can be forced: not callable, or a callable that returns a value when
  it is invoked with no argument. \<open>forced\<close> is the value that takes its place.
\<close>

definition forceable :: "env \<Rightarrow> heap \<Rightarrow> pyval \<Rightarrow> bool" where
  "forceable env h i = (if callable i then \<not> isl (call env h i []) else True)"

definition forced :: "env \<Rightarrow> heap \<Rightarrow> pyval \<Rightarrow> pyval" where
  "forced env h i = (if callable i then projr (call env h i []) else i)"

text \<open>
  An expression built from names of instances with \<open>|\<close> and parentheses, the
  instance that it evaluates to (the left operand first, then the right one, then
  \<open>__or__\<close> of the left one), and its stages from left to right. \<open>run_stages\<close> applies
  the \<open>func\<close> of the stages one after the other, and stops at the first exception.
\<close>

datatype grouping = Stage nat | Pipe grouping grouping

fun stages :: "grouping \<Rightarrow> nat list" where
  "stages (Stage s) = [s]"
| "stages (Pipe l r) = stages l @ stages r"

fun build :: "heap \<Rightarrow> grouping \<Rightarrow> pyval \<times> heap" where
  "build h (Stage s) = (PComposable s, h)"
| "build h (Pipe l r) =
     (case build h l of
        (PComposable a, h1) \<Rightarrow> (case build h1 r of (b, h2) \<Rightarrow> composable_or h2 a b)
      | (v, h1) \<Rightarrow> (v, h1))"

fun run_stages :: "env \<Rightarrow> heap \<Rightarrow> pyval \<Rightarrow> nat list \<Rightarrow> error + pyval" where
  "run_stages env h x [] = Inr x"
| "run_stages env h x (s # ss) =
     (case self_func env h s [x] of Inl e \<Rightarrow> Inl e | Inr y \<Rightarrow> run_stages env h y ss)"

text \<open>
  An environment for the examples: \<open>seven()\<close> returns 7, \<open>same(x)\<close> returns \<open>x\<close>,
  and \<open>double(n)\<close> and \<open>succ(n)\<close> return \<open>2 * n\<close> and \<open>n + 1\<close> for an \<open>int\<close> and
  raise \<open>TypeError\<close> for any other argument.
\<close>

fun example_env :: env where
  "example_env f [] =
     (if f = ''seven'' then Inr (PInt 7)
      else Inl (TypeError ''missing 1 required positional argument''))"
| "example_env f [v] =
     (if f = ''same'' then Inr v
      else if f = ''double'' then
        (case v of PInt n \<Rightarrow> Inr (PInt (2 * n)) | _ \<Rightarrow> Inl (TypeError ''an int is required''))
      else if f = ''succ'' then
        (case v of PInt n \<Rightarrow> Inr (PInt (n + 1)) | _ \<Rightarrow> Inl (TypeError ''an int is required''))
      else Inl (TypeError ''takes 0 positional arguments but 1 was given''))"
| "example_env f _ = Inl (TypeError ''takes 1 positional argument'')"

text \<open>
  The data file of the example of the specification, for the area \<open>staff\<close> of an
  application installed in \<open>/srv/app/src\<close>.
\<close>

definition staff_file :: filesystem where
  \<open>staff_file =
     (\<lambda>p. if p = ''/srv/app/src/../data_files/staff.txt''
          then Text (''{"name":"Ann","job":"Cook"}'' @ [CHR 0x0A, CHR 0x0A] @
                     ''{"name":"Bo","job":"Pilot"}'' @ [CHR 0x0A])
          else Absent)\<close>

section \<open>The line reader\<close>

lemma strip_nonempty_iff: "strip l \<noteq> [] \<longleftrightarrow> (\<exists>c\<in>set l. \<not> isspace c)"
proof
  assume "strip l \<noteq> []"
  then have "dropWhile isspace (rev (dropWhile isspace l)) \<noteq> []"
    by (simp add: strip_def)
  then obtain c where "c \<in> set (dropWhile isspace l)" "\<not> isspace c"
    unfolding dropWhile_eq_Nil_conv by auto
  then show "\<exists>c\<in>set l. \<not> isspace c"
    using set_dropWhileD by fastforce
next
  assume "\<exists>c\<in>set l. \<not> isspace c"
  then have ne: "dropWhile isspace l \<noteq> []"
    unfolding dropWhile_eq_Nil_conv by simp
  then have "\<not> isspace (hd (dropWhile isspace l))"
    by (rule hd_dropWhile)
  moreover have "hd (dropWhile isspace l) \<in> set (rev (dropWhile isspace l))"
    using ne by simp
  ultimately have "dropWhile isspace (rev (dropWhile isspace l)) \<noteq> []"
    unfolding dropWhile_eq_Nil_conv by blast
  then show "strip l \<noteq> []"
    by (simp add: strip_def)
qed

lemma str_split_nonempty: "str_split s \<noteq> []"
  by (induction s) (auto split: list.splits)

lemma str_join_Cons:
  "ls \<noteq> [] \<Longrightarrow> str_join (l # ls) = l @ CHR 0x0A # str_join ls"
  by (cases ls) auto

lemma str_join_split: "str_join (str_split s) = s"
proof (induction s)
  case Nil
  show ?case by simp
next
  case (Cons c cs)
  obtain l ls where split: "str_split cs = l # ls"
    using str_split_nonempty [of cs] by (cases "str_split cs") auto
  show ?case
  proof (cases "c = CHR 0x0A")
    case True
    then show ?thesis
      using Cons.IH by (simp add: str_join_Cons str_split_nonempty)
  next
    case False
    with split Cons.IH show ?thesis
      by (cases ls) auto
  qed
qed

lemma str_split_no_newline: "l \<in> set (str_split s) \<Longrightarrow> CHR 0x0A \<notin> set l"
proof (induction s arbitrary: l)
  case Nil
  then show ?case by simp
next
  case (Cons c cs)
  obtain l' ls where split: "str_split cs = l' # ls"
    using str_split_nonempty [of cs] by (cases "str_split cs") auto
  with Cons show ?case
    by (auto split: if_splits)
qed

text \<open>
  C3. When the file can be read, \<open>read_lines\<close> returns, in order, exactly the
  segments of the text between newlines that hold a character which is not
  whitespace: joining the segments with newlines gives the text back, no segment
  holds a newline, and an empty or whitespace-only segment is never in the result.
\<close>

theorem read_lines_segments:
  assumes "fs file_path = Text buf"
  shows "read_lines fs file_path =
           Inr (filter (\<lambda>l. \<not> list_all isspace l) (str_split buf))
         \<and> str_join (str_split buf) = buf
         \<and> (\<forall>l\<in>set (str_split buf). CHR 0x0A \<notin> set l)"
proof -
  have "(\<lambda>l. strip l \<noteq> []) = (\<lambda>l. \<not> list_all isspace l)"
    by (auto simp: strip_nonempty_iff list_all_iff)
  then show ?thesis
    using assms by (simp add: read_lines_def open_read_def str_join_split str_split_no_newline)
qed

theorem read_lines_segments_witness:
  "read_lines
     (\<lambda>p. if p = ''a.txt''
          then Text [CHR ''x'', CHR 0x0A, CHR '' '', CHR 0x09, CHR 0x0A, CHR 0x0A, CHR ''y'', CHR '' '']
          else Absent)
     ''a.txt'' = Inr [''x'', ''y '']"
  using read_lines_segments
    [of "\<lambda>p. if p = ''a.txt''
          then Text [CHR ''x'', CHR 0x0A, CHR '' '', CHR 0x09, CHR 0x0A, CHR 0x0A, CHR ''y'', CHR '' '']
          else Absent"
        "''a.txt''"
        "[CHR ''x'', CHR 0x0A, CHR '' '', CHR 0x09, CHR 0x0A, CHR 0x0A, CHR ''y'', CHR '' '']"]
  by (simp add: isspace_def)

section \<open>The three endpoints\<close>

lemma step_3_module_eq:
  "step_3_module =
     [PFunction ''create_filepath'', PFunction ''read_lines'',
      PFunction ''parse_dicts'', PFunction ''convert_to_contacts'']"
  by (simp add: step_3_module_def composable_def)

lemma comprehension_force_data:
  "\<forall>x\<in>set xs. \<not> callable x \<Longrightarrow> comprehension (force env h) xs = Inr xs"
  by (induction xs) (auto simp: force_def)

lemma comprehension_json_loads:
  "comprehension (json_loads dec) (map PStr lines) = comprehension (loads dec) lines"
  by (induction lines) (auto split: sum.splits)

lemma not_callable_py_of_json: "\<not> callable (py_of_json v)"
  by (cases v) auto

lemma loads_not_callable: "loads dec l = Inr d \<Longrightarrow> \<not> callable d"
  by (auto simp: loads_def not_callable_py_of_json split: sum.splits)

lemma comprehension_loads_not_callable:
  "comprehension (loads dec) lines = Inr dicts \<Longrightarrow> \<forall>d\<in>set dicts. \<not> callable d"
  by (induction lines arbitrary: dicts) (auto split: sum.splits dest: loads_not_callable)

lemma ror_create_filepath:
  "composable_ror (step_3_env dec fs here) step_3_module 0 (PStr area) =
     Inr (PPath (create_filepath here area))"
  by (simp add: composable_ror_def force_args_def self_func_def step_3_module_eq step_3_env_def)

lemma ror_read_lines:
  "composable_ror (step_3_env dec fs here) step_3_module (Suc 0) (PPath p) =
     (case read_lines fs p of Inl e \<Rightarrow> Inl e | Inr lines \<Rightarrow> Inr (PList (map PStr lines)))"
  by (simp add: composable_ror_def force_args_def self_func_def step_3_module_eq step_3_env_def)

lemma ror_parse_dicts:
  "composable_ror (step_3_env dec fs here) step_3_module 2 (PList (map PStr lines)) =
     (case parse_dicts dec lines of Inl e \<Rightarrow> Inl e | Inr dicts \<Rightarrow> Inr (PList dicts))"
proof -
  have "comprehension (force (step_3_env dec fs here) step_3_module) (map PStr lines) = Inr (map PStr lines)"
    by (rule comprehension_force_data) auto
  then show ?thesis
    by (simp add: composable_ror_def force_args_def self_func_def step_3_module_eq
        step_3_env_def comprehension_json_loads parse_dicts_def)
qed

lemma ror_convert_to_contacts:
  assumes "\<forall>d\<in>set dicts. \<not> callable d"
  shows "composable_ror (step_3_env dec fs here) step_3_module 3 (PList dicts) =
     (case convert_to_contacts dicts of
        Inl e \<Rightarrow> Inl e
      | Inr contacts \<Rightarrow> Inr (PList (map PContact contacts)))"
proof -
  have "comprehension (force (step_3_env dec fs here) step_3_module) dicts = Inr dicts"
    using assms by (rule comprehension_force_data)
  then show ?thesis
    by (simp add: composable_ror_def force_args_def self_func_def step_3_module_eq
        step_3_env_def convert_to_contacts_def)
qed

lemma step_1_is_step_2:
  "step_1_get_people dec fs here area = step_2_get_people dec fs here area"
  by (simp add: step_1_get_people_def step_2_get_people_def create_filepath_def read_lines_def
      parse_dicts_def convert_to_contacts_def Let_def split: sum.splits)

lemma step_3_is_step_2:
  "step_3_get_people dec fs here area =
     (case step_2_get_people dec fs here area of
        Inl e \<Rightarrow> Inl e
      | Inr contacts \<Rightarrow> Inr (PList (map PContact contacts)))"
proof (cases "read_lines fs (create_filepath here area)")
  case (Inl e)
  then show ?thesis
    by (simp add: step_3_get_people_def step_2_get_people_def Let_def
        ror_create_filepath ror_read_lines)
next
  case lines: (Inr lines)
  show ?thesis
  proof (cases "parse_dicts dec lines")
    case (Inl e)
    with lines show ?thesis
      by (simp add: step_3_get_people_def step_2_get_people_def Let_def
          ror_create_filepath ror_read_lines ror_parse_dicts)
  next
    case (Inr dicts)
    then have "\<forall>d\<in>set dicts. \<not> callable d"
      by (simp add: parse_dicts_def comprehension_loads_not_callable)
    with lines Inr show ?thesis
      by (simp add: step_3_get_people_def step_2_get_people_def Let_def
          ror_create_filepath ror_read_lines ror_parse_dicts ror_convert_to_contacts)
  qed
qed

text \<open>
  C1. For every area and every file system, \<open>get_people\<close> of step\_1.py and of
  step\_2.py return the same list of contacts or raise the same exception, and
  \<open>get_people\<close> of step\_3.py returns that list (as the Python list of the contacts)
  or raises that exception.
\<close>

theorem endpoints_equivalent:
  "step_1_get_people dec fs here area = step_2_get_people dec fs here area
   \<and> step_3_get_people dec fs here area =
       (case step_2_get_people dec fs here area of
          Inl e \<Rightarrow> Inl e
        | Inr contacts \<Rightarrow> Inr (PList (map PContact contacts)))"
  using step_1_is_step_2 step_3_is_step_2 by blast

section \<open>The record parser\<close>



section \<open>The converter\<close>

lemma validate_good:
  "has_str rec ''name'' \<Longrightarrow> has_str rec ''job'' \<Longrightarrow>
   validate rec = Inr \<lparr>name = str_at rec ''name'', job = str_at rec ''job''\<rparr>"
  by (auto simp: validate_def has_str_def str_at_def split: option.splits pyval.splits)

lemma validate_bad:
  "\<not> (has_str rec ''name'' \<and> has_str rec ''job'') \<Longrightarrow>
   validate rec = Inl (ValidationError rec (field_errors rec ''name'' @ field_errors rec ''job''))"
  by (auto simp: validate_def has_str_def split: option.splits pyval.splits)

lemma field_errors_empty: "field_errors rec k = [] \<longleftrightarrow> has_str rec k"
  by (auto simp: field_errors_def has_str_def split: option.splits pyval.splits)

lemma field_errors_fst: "set (map fst (field_errors rec k)) = (if has_str rec k then {} else {k})"
  by (auto simp: field_errors_def has_str_def split: option.splits pyval.splits)

lemma field_errors_Missing:
  "(k, Missing) \<in> set (field_errors rec k) \<longleftrightarrow> map_of rec (PStr k) = None"
  by (auto simp: field_errors_def split: option.splits pyval.splits)

lemma field_errors_Not_a_string:
  "(k, Not_a_string) \<in> set (field_errors rec k) \<longleftrightarrow> (\<exists>v. map_of rec (PStr k) = Some v \<and> \<not> is_str v)"
  by (auto simp: field_errors_def is_str_def split: option.splits pyval.splits)

lemma convert_to_contacts_find:
  assumes "\<forall>rec\<in>set recs. list_all (\<lambda>kv. is_str (fst kv)) rec"
  shows "convert_to_contacts (map PDict recs) =
     (case find (\<lambda>rec. \<not> (has_str rec ''name'' \<and> has_str rec ''job'')) recs of
        Some rec \<Rightarrow>
          Inl (ValidationError rec (field_errors rec ''name'' @ field_errors rec ''job''))
      | None \<Rightarrow>
          Inr (map (\<lambda>rec. \<lparr>name = str_at rec ''name'', job = str_at rec ''job''\<rparr>) recs))"
  using assms
proof (induction recs)
  case Nil
  show ?case by (simp add: convert_to_contacts_def)
next
  case (Cons rec recs)
  then have IH: "comprehension Contact (map PDict recs) =
     (case find (\<lambda>rec. \<not> (has_str rec ''name'' \<and> has_str rec ''job'')) recs of
        Some rec \<Rightarrow>
          Inl (ValidationError rec (field_errors rec ''name'' @ field_errors rec ''job''))
      | None \<Rightarrow>
          Inr (map (\<lambda>rec. \<lparr>name = str_at rec ''name'', job = str_at rec ''job''\<rparr>) recs))"
    by (simp add: convert_to_contacts_def)
  have keys: "list_all (\<lambda>kv. is_str (fst kv)) rec"
    using Cons.prems by simp
  show ?case
  proof (cases "has_str rec ''name'' \<and> has_str rec ''job''")
    case True
    then show ?thesis
      using keys IH by (simp add: convert_to_contacts_def validate_good split: option.splits)
  next
    case False
    then show ?thesis
      using keys by (simp add: convert_to_contacts_def validate_bad)
  qed
qed

text \<open>
  C5. On parsed records (dicts whose keys are strings), \<open>convert_to_contacts\<close> fails
  when some record lacks \<open>name\<close> or \<open>job\<close> or holds something else than a string
  there: it raises the \<open>ValidationError\<close> of the first such record, which carries the
  record and names exactly its missing or mistyped fields, and no partial result is
  returned. Otherwise each record gives the contact of its two strings, in order.
\<close>

theorem convert_to_contacts_all_or_nothing:
  assumes "\<forall>rec\<in>set recs. list_all (\<lambda>kv. is_str (fst kv)) rec"
  shows "case find (\<lambda>rec. \<not> (has_str rec ''name'' \<and> has_str rec ''job'')) recs of
           Some rec \<Rightarrow>
             convert_to_contacts (map PDict recs) =
               Inl (ValidationError rec (field_errors rec ''name'' @ field_errors rec ''job''))
             \<and> set (map fst (field_errors rec ''name'' @ field_errors rec ''job'')) =
                 {k. (k = ''name'' \<or> k = ''job'') \<and> \<not> has_str rec k}
             \<and> field_errors rec ''name'' @ field_errors rec ''job'' \<noteq> []
         | None \<Rightarrow>
             convert_to_contacts (map PDict recs) =
               Inr (map (\<lambda>rec. \<lparr>name = str_at rec ''name'', job = str_at rec ''job''\<rparr>) recs)"
proof (cases "find (\<lambda>rec. \<not> (has_str rec ''name'' \<and> has_str rec ''job'')) recs")
  case None
  then show ?thesis
    using convert_to_contacts_find [OF assms] by simp
next
  case (Some rec)
  then have bad: "\<not> (has_str rec ''name'' \<and> has_str rec ''job'')"
    by (auto simp: find_Some_iff)
  have "set (map fst (field_errors rec ''name'' @ field_errors rec ''job'')) =
          {k. (k = ''name'' \<or> k = ''job'') \<and> \<not> has_str rec k}"
    using field_errors_fst [of rec "''name''"] field_errors_fst [of rec "''job''"]
    by (auto split: if_splits)
  moreover have "field_errors rec ''name'' @ field_errors rec ''job'' \<noteq> []"
    using bad by (simp add: field_errors_empty)
  ultimately show ?thesis
    using Some convert_to_contacts_find [OF assms] by simp
qed

theorem convert_to_contacts_all_or_nothing_witness:
  "convert_to_contacts
     [PDict [(PStr ''name'', PStr ''Bo''), (PStr ''job'', PStr ''Pilot'')],
      PDict [(PStr ''name'', PStr ''Ann'')],
      PDict [(PStr ''job'', PInt 3)]] =
     Inl (ValidationError [(PStr ''name'', PStr ''Ann'')] [(''job'', Missing)])
   \<and> convert_to_contacts
     [PDict [(PStr ''name'', PStr ''Bo''), (PStr ''job'', PStr ''Pilot''), (PStr ''age'', PInt 41)]] =
     Inr [\<lparr>name = ''Bo'', job = ''Pilot''\<rparr>]"
  using convert_to_contacts_all_or_nothing
    [of "[[(PStr ''name'', PStr ''Bo''), (PStr ''job'', PStr ''Pilot'')],
          [(PStr ''name'', PStr ''Ann'')],
          [(PStr ''job'', PInt 3)]]"]
    convert_to_contacts_all_or_nothing
    [of "[[(PStr ''name'', PStr ''Bo''), (PStr ''job'', PStr ''Pilot''), (PStr ''age'', PInt 41)]]"]
  by (simp add: is_str_def has_str_def str_at_def field_errors_def)

section \<open>The pipeline\<close>

lemma read_lines_Text:
  "fs file_path = Text buf \<Longrightarrow>
   read_lines fs file_path = Inr (filter (\<lambda>l. \<not> list_all isspace l) (str_split buf))"
proof -
  have "(\<lambda>l. strip l \<noteq> []) = (\<lambda>l. \<not> list_all isspace l)"
    by (auto simp: strip_nonempty_iff list_all_iff)
  then show "fs file_path = Text buf \<Longrightarrow> ?thesis"
    by (simp add: read_lines_def open_read_def)
qed

lemma dict_set_keys:
  "list_all (\<lambda>kv. is_str (fst kv)) d \<Longrightarrow> is_str k \<Longrightarrow>
   list_all (\<lambda>kv. is_str (fst kv)) (dict_set d k v)"
  by (induction d) auto

lemma is_str_PStr: "is_str (PStr s)"
  by (simp add: is_str_def)

lemma foldl_dict_set_keys:
  "list_all (\<lambda>kv. is_str (fst kv)) d \<Longrightarrow>
   list_all (\<lambda>kv. is_str (fst kv))
     (foldl (\<lambda>d kv. dict_set d (PStr (fst kv)) (g kv)) d kvs)"
proof (induction kvs arbitrary: d)
  case Nil
  then show ?case by simp
next
  case (Cons kv kvs)
  have "list_all (\<lambda>kv. is_str (fst kv)) (dict_set d (PStr (fst kv)) (g kv))"
    using Cons.prems by (rule dict_set_keys) (rule is_str_PStr)
  then show ?case
    using Cons.IH by simp
qed

lemma loads_dict_keys:
  assumes "loads dec l = Inr (PDict rec)"
  shows "list_all (\<lambda>kv. is_str (fst kv)) rec"
proof -
  obtain v where v: "dec l = Inr v" "py_of_json v = PDict rec"
    using assms by (auto simp: loads_def split: sum.splits)
  then obtain kvs where "v = JObj kvs"
    by (cases v) auto
  with v show ?thesis
    using foldl_dict_set_keys [of "[]" "\<lambda>kv. py_of_json (snd kv)" kvs] by simp
qed

lemma line_contact_Some:
  assumes "line_contact dec l = Some c"
  shows "\<exists>d. loads dec l = Inr d \<and> Contact d = Inr c"
proof -
  from assms obtain rec where rec: "loads dec l = Inr (PDict rec)"
    and good: "has_str rec ''name''" "has_str rec ''job''"
    and c: "c = \<lparr>name = str_at rec ''name'', job = str_at rec ''job''\<rparr>"
    by (auto simp: line_contact_def split: sum.splits pyval.splits if_splits)
  have "Contact (PDict rec) = Inr c"
    using loads_dict_keys [OF rec] good c by (simp add: validate_good)
  with rec show ?thesis by blast
qed

lemma comprehension_map_Some:
  assumes "\<forall>x\<in>set xs. \<exists>y z. f x = Inr y \<and> g y = Inr z \<and> k x = Some z"
  shows "\<exists>ys. comprehension f xs = Inr ys \<and> comprehension g ys = Inr (map (\<lambda>x. the (k x)) xs)"
  using assms
proof (induction xs)
  case Nil
  show ?case by simp
next
  case (Cons x xs)
  then obtain ys where ys: "comprehension f xs = Inr ys"
      "comprehension g ys = Inr (map (\<lambda>x. the (k x)) xs)"
    by auto
  from Cons.prems obtain y z where "f x = Inr y" "g y = Inr z" "k x = Some z"
    by auto
  with ys show ?case by simp
qed

text \<open>
  C2. When the file of the area exists and each of its lines that is not blank is
  well formed, \<open>get_people\<close> returns one contact for each such line, in the order of
  the lines: the contact that the line describes.
\<close>

theorem well_formed_lines_contacts:
  assumes content: "fs (create_filepath here area) = Text buf"
    and lines: "lines = filter (\<lambda>l. \<not> list_all isspace l) (str_split buf)"
    and well_formed: "\<forall>l\<in>set lines. line_contact dec l \<noteq> None"
  shows "\<exists>contacts. step_2_get_people dec fs here area = Inr contacts
           \<and> length contacts = length lines
           \<and> (\<forall>i<length lines. line_contact dec (lines ! i) = Some (contacts ! i))"
proof -
  have read: "read_lines fs (create_filepath here area) = Inr lines"
    using read_lines_Text [of fs "create_filepath here area" buf] content lines by simp
  have "\<forall>l\<in>set lines. \<exists>d c. loads dec l = Inr d \<and> Contact d = Inr c \<and> line_contact dec l = Some c"
    using well_formed line_contact_Some by fastforce
  then obtain dicts where dicts: "comprehension (loads dec) lines = Inr dicts"
      "comprehension Contact dicts = Inr (map (\<lambda>l. the (line_contact dec l)) lines)"
    using comprehension_map_Some [of lines "loads dec" Contact "line_contact dec"] by blast
  have "step_2_get_people dec fs here area = Inr (map (\<lambda>l. the (line_contact dec l)) lines)"
    using read dicts by (simp add: step_2_get_people_def parse_dicts_def convert_to_contacts_def)
  moreover have "\<forall>i<length lines.
      line_contact dec (lines ! i) = Some (map (\<lambda>l. the (line_contact dec l)) lines ! i)"
    using well_formed by auto
  ultimately show ?thesis by simp
qed

text \<open>The example of the specification: two well-formed lines and a blank one.\<close>

theorem well_formed_lines_contacts_witness:
  "step_2_get_people json_decode staff_file ''/srv/app/src'' ''staff'' =
     Inr [\<lparr>name = ''Ann'', job = ''Cook''\<rparr>, \<lparr>name = ''Bo'', job = ''Pilot''\<rparr>]"
proof -
  define l0 where \<open>l0 = ''{"name":"Ann","job":"Cook"}''\<close>
  define l1 where \<open>l1 = ''{"name":"Bo","job":"Pilot"}''\<close>
  have content: "staff_file (create_filepath ''/srv/app/src'' ''staff'') =
      Text (l0 @ [CHR 0x0A, CHR 0x0A] @ l1 @ [CHR 0x0A])"
    by (simp add: staff_file_def create_filepath_def path_join_def l0_def l1_def)
  have lines: "[l0, l1] =
      filter (\<lambda>l. \<not> list_all isspace l) (str_split (l0 @ [CHR 0x0A, CHR 0x0A] @ l1 @ [CHR 0x0A]))"
    by (simp add: l0_def l1_def isspace_def)
  have c0: "line_contact json_decode l0 = Some \<lparr>name = ''Ann'', job = ''Cook''\<rparr>"
    unfolding l0_def by code_simp
  have c1: "line_contact json_decode l1 = Some \<lparr>name = ''Bo'', job = ''Pilot''\<rparr>"
    unfolding l1_def by code_simp
  have "\<forall>l\<in>set [l0, l1]. line_contact json_decode l \<noteq> None"
    using c0 c1 by simp
  from well_formed_lines_contacts
    [where fs = staff_file and here = "''/srv/app/src''" and area = "''staff''"
       and dec = json_decode and lines = "[l0, l1]", OF content lines this]
  obtain contacts where res: "step_2_get_people json_decode staff_file ''/srv/app/src'' ''staff'' = Inr contacts"
    and len: "length contacts = length [l0, l1]"
    and each: "\<forall>i<length [l0, l1]. line_contact json_decode ([l0, l1] ! i) = Some (contacts ! i)"
    by blast
  from len obtain a b where ab: "contacts = [a, b]"
    by (cases contacts; cases "tl contacts") auto
  from each [rule_format, of 0] each [rule_format, of 1] c0 c1 ab
  have "a = \<lparr>name = ''Ann'', job = ''Cook''\<rparr>" "b = \<lparr>name = ''Bo'', job = ''Pilot''\<rparr>"
    by simp_all
  with res ab show ?thesis by simp
qed

text \<open>
  The other example of the specification: a line without \<open>job\<close> fails the request
  with a validation error that names the field.
\<close>

lemma example_missing_job:
  \<open>step_2_get_people json_decode (\<lambda>p. Text ''{"name":"Ann"}'') ''/srv/app/src'' ''staff'' =
     Inl (ValidationError [(PStr ''name'', PStr ''Ann'')] [(''job'', Missing)])\<close>
  by code_simp







section \<open>Chaining\<close>

lemma call_extend:
  "lives_in (length h) v \<Longrightarrow> call env (h @ ext) v args = call env h v args"
proof (induction v arbitrary: args)
  case (PLambda_then other self)
  then show ?case
    by (cases args; cases "tl args") (auto simp: nth_append split: sum.splits)
next
  case (PLambda_const self other)
  then show ?case
    by (cases args; cases "tl args") (auto simp: nth_append)
qed (auto simp: nth_append)

lemma self_func_extend:
  "self < length h \<Longrightarrow> self_func env (h @ ext) self args = self_func env h self args"
  by (simp add: self_func_def nth_append)

lemma call_PComposable: "call env h (PComposable self) args = self_func env h self args"
  by (simp add: self_func_def)

lemma force_extend:
  "lives_in (length h) i \<Longrightarrow> force env (h @ ext) i = force env h i"
  by (simp add: force_def call_extend)

lemma comprehension_cong:
  "(\<And>x. x \<in> set xs \<Longrightarrow> f x = g x) \<Longrightarrow> comprehension f xs = comprehension g xs"
  by (induction xs) (auto cong: sum.case_cong)

lemma force_args_extend:
  assumes "\<forall>i\<in>set (elements x). lives_in (length h) i"
  shows "force_args env (h @ ext) x = force_args env h x"
proof (cases x)
  case (PList xs)
  with assms have "comprehension (force env (h @ ext)) xs = comprehension (force env h) xs"
    by (intro comprehension_cong) (simp add: elements_def force_extend)
  with PList show ?thesis by (simp add: force_args_def)
next
  case (PTuple xs)
  with assms have "comprehension (force env (h @ ext)) xs = comprehension (force env h) xs"
    by (intro comprehension_cong) (simp add: elements_def force_extend)
  with PTuple show ?thesis by (simp add: force_args_def)
next
  case (PDict kvs)
  with assms have "comprehension (force_item env (h @ ext)) kvs = comprehension (force_item env h) kvs"
    by (intro comprehension_cong) (simp add: elements_def force_item_def force_extend)
  with PDict show ?thesis by (simp add: force_args_def)
qed (simp_all add: force_args_def)

lemma composable_or_callable:
  "callable g \<Longrightarrow> composable_or h self g = (PComposable (length h), h @ [PLambda_then g self])"
  by (simp add: composable_or_def composable_def)

lemma composable_or_constant:
  "\<not> callable c \<Longrightarrow> composable_or h self c = (PComposable (length h), h @ [PLambda_const self c])"
  by (simp add: composable_or_def composable_def)

lemma call_then:
  assumes "self < length h"
  shows "call env (h @ [PLambda_then g self]) (PComposable (length h)) args =
     (case args of
        [x] \<Rightarrow> (case self_func env h self [x] of Inl e \<Rightarrow> Inl e | Inr y \<Rightarrow> call env h g [y])
      | _ \<Rightarrow> Inl (TypeError ''<lambda>() takes 1 positional argument''))"
  using assms by (simp add: self_func_def split: list.splits)

text \<open>
  C7. For an instance \<open>self\<close> of the heap and a callable \<open>g\<close> that lives in the heap,
  \<open>self | g\<close> is a new instance, at the first free address; the new heap is the old
  one with that instance appended, so that no instance of the old heap has changed;
  the new instance called on \<open>x\<close> returns \<open>g(self.func(x))\<close>, or raises what
  \<open>self.func\<close> or \<open>g\<close> raise; and \<open>self\<close> called in the new heap gives what it gave in
  the old one.
\<close>

theorem chaining_composes:
  assumes "self < length h" and "callable g" and "lives_in (length h) g"
  shows "case composable_or h self g of
           (p, h') \<Rightarrow>
             p = PComposable (length h) \<and> length h' = Suc (length h) \<and> take (length h) h' = h
             \<and> call env h' p [x] =
                 (case self_func env h' self [x] of Inl e \<Rightarrow> Inl e | Inr y \<Rightarrow> call env h' g [y])
             \<and> call env h' (PComposable self) args = call env h (PComposable self) args"
proof -
  have "call env (h @ [PLambda_then g self]) (PComposable (length h)) [x] =
      (case self_func env (h @ [PLambda_then g self]) self [x] of
         Inl e \<Rightarrow> Inl e
       | Inr y \<Rightarrow> call env (h @ [PLambda_then g self]) g [y])"
    using assms by (simp add: self_func_def nth_append call_extend cong: sum.case_cong)
  moreover have "call env (h @ [PLambda_then g self]) (PComposable self) args =
      call env h (PComposable self) args"
    using assms by (simp add: nth_append)
  ultimately show ?thesis
    using assms by (simp add: composable_or_callable)
qed


theorem chaining_composes_witness:
  "composable_or [PFunction ''double''] 0 (PFunction ''succ'') =
     (PComposable 1, [PFunction ''double'', PLambda_then (PFunction ''succ'') 0])
   \<and> call example_env [PFunction ''double'', PLambda_then (PFunction ''succ'') 0]
        (PComposable 1) [PInt 5] = Inr (PInt 11)
   \<and> call example_env [PFunction ''double'', PLambda_then (PFunction ''succ'') 0]
        (PComposable 0) [PInt 5] = Inr (PInt 10)"
  using chaining_composes
    [of 0 "[PFunction ''double'']" "PFunction ''succ''" example_env "PInt 5" "[PInt 5]"]
  by (simp add: composable_or_def composable_def self_func_def)

lemma heap_ok_iff: "heap_ok h \<longleftrightarrow> (\<forall>a<length h. lives_in a (h ! a))"
  by (auto simp: heap_ok_def list_all_iff)

lemma lives_in_mono: "lives_in m v \<Longrightarrow> m \<le> n \<Longrightarrow> lives_in n v"
  by (induction v) auto

lemma composable_heap_ok:
  "heap_ok h \<Longrightarrow> lives_in (length h) func \<Longrightarrow> heap_ok (snd (composable h func))"
  by (auto simp: heap_ok_iff composable_def nth_append less_Suc_eq)

lemma composable_or_heap_ok:
  "heap_ok h \<Longrightarrow> self < length h \<Longrightarrow> lives_in (length h) other \<Longrightarrow>
   heap_ok (snd (composable_or h self other))"
  by (simp add: composable_or_def composable_heap_ok)

lemma call_below_instance:
  assumes "heap_ok h" and "a < length h"
  shows "call env (take a h) (h ! a) args = call env h (h ! a) args"
proof -
  have "lives_in (length (take a h)) (h ! a)"
    using assms by (simp add: heap_ok_iff)
  then have "call env (take a h @ drop a h) (h ! a) args = call env (take a h) (h ! a) args"
    by (rule call_extend)
  then show ?thesis by simp
qed

text \<open>
  C8. For three instances \<open>f\<close>, \<open>g\<close>, \<open>k\<close> of the heap (wrapped functions or chains
  built before), \<open>(f | g) | k\<close>, which is also how Python reads \<open>f | g | k\<close>, and
  \<open>f | (g | k)\<close> give the same result or raise the same exception, called on any
  arguments and with any value of the heap piped into them; on one argument \<open>x\<close> the
  result is \<open>k.func(g.func(f.func(x)))\<close>.
\<close>

theorem chaining_associative:
  assumes "f < length h" and "g < length h" and "k < length h"
    and "\<forall>i\<in>set (elements x). lives_in (length h) i"
  shows "case composable_or h f (PComposable g) of
           (fg, h1) \<Rightarrow>
         case composable_or h1 (length h) (PComposable k) of
           (fg_k, h2) \<Rightarrow>
         case composable_or h g (PComposable k) of
           (gk, h3) \<Rightarrow>
         case composable_or h3 f gk of
           (f_gk, h4) \<Rightarrow>
             call env h2 fg_k args = call env h4 f_gk args
             \<and> composable_ror env h2 (Suc (length h)) x = composable_ror env h4 (Suc (length h)) x
             \<and> call env h2 fg_k [x] =
                 (case self_func env h f [x] of
                    Inl e \<Rightarrow> Inl e
                  | Inr y \<Rightarrow>
                      (case self_func env h g [y] of
                         Inl e \<Rightarrow> Inl e
                       | Inr z \<Rightarrow> self_func env h k [z]))"
proof -
  define L1 where "L1 = PLambda_then (PComposable g) f"
  define L2 where "L2 = PLambda_then (PComposable k) (length h)"
  define L3 where "L3 = PLambda_then (PComposable k) g"
  define L4 where "L4 = PLambda_then (PComposable (length h)) f"
  have left: "call env (h @ [L1, L2]) (PComposable (Suc (length h))) as =
      (case as of
         [v] \<Rightarrow>
           (case self_func env h f [v] of
              Inl e \<Rightarrow> Inl e
            | Inr y \<Rightarrow>
                (case self_func env h g [y] of
                   Inl e \<Rightarrow> Inl e
                 | Inr z \<Rightarrow> self_func env h k [z]))
       | _ \<Rightarrow> Inl (TypeError ''<lambda>() takes 1 positional argument''))" for as
    using assms(1-3)
    by (simp add: L1_def L2_def self_func_def nth_append split: list.splits sum.splits)
  have right: "call env (h @ [L3, L4]) (PComposable (Suc (length h))) as =
      (case as of
         [v] \<Rightarrow>
           (case self_func env h f [v] of
              Inl e \<Rightarrow> Inl e
            | Inr y \<Rightarrow>
                (case self_func env h g [y] of
                   Inl e \<Rightarrow> Inl e
                 | Inr z \<Rightarrow> self_func env h k [z]))
       | _ \<Rightarrow> Inl (TypeError ''<lambda>() takes 1 positional argument''))" for as
    using assms(1-3)
    by (simp add: L3_def L4_def self_func_def nth_append split: list.splits sum.splits)
  have calls: "call env (h @ [L1, L2]) (PComposable (Suc (length h))) as =
      call env (h @ [L3, L4]) (PComposable (Suc (length h))) as" for as
    by (simp only: left right)
  have "force_args env (h @ [L1, L2]) x = force_args env h x"
    "force_args env (h @ [L3, L4]) x = force_args env h x"
    using assms(4) by (simp_all only: force_args_extend)
  moreover have "self_func env (h @ [L1, L2]) (Suc (length h)) as =
      self_func env (h @ [L3, L4]) (Suc (length h)) as" for as
    using calls [of as] by (simp only: call_PComposable)
  ultimately have rors: "composable_ror env (h @ [L1, L2]) (Suc (length h)) x =
      composable_ror env (h @ [L3, L4]) (Suc (length h)) x"
    by (simp only: composable_ror_def)
  have heaps: "composable_or h f (PComposable g) = (PComposable (length h), h @ [L1])"
    "composable_or (h @ [L1]) (length h) (PComposable k) = (PComposable (Suc (length h)), h @ [L1, L2])"
    "composable_or h g (PComposable k) = (PComposable (length h), h @ [L3])"
    "composable_or (h @ [L3]) f (PComposable (length h)) = (PComposable (Suc (length h)), h @ [L3, L4])"
    by (simp_all add: composable_or_callable L1_def L2_def L3_def L4_def)
  show ?thesis
    unfolding heaps prod.case
    using calls [of args] rors left [of "[x]"] by simp
qed

theorem chaining_associative_witness:
  "call example_env
     [PFunction ''double'', PFunction ''succ'', PFunction ''double'',
      PLambda_then (PComposable 1) 0, PLambda_then (PComposable 2) 3]
     (PComposable 4) [PInt 5] = Inr (PInt 22)
   \<and> call example_env
     [PFunction ''double'', PFunction ''succ'', PFunction ''double'',
      PLambda_then (PComposable 2) 1, PLambda_then (PComposable 3) 0]
     (PComposable 4) [PInt 5] = Inr (PInt 22)"
  using chaining_associative
    [of 0 "[PFunction ''double'', PFunction ''succ'', PFunction ''double'']" 1 2 "PInt 5"
        example_env "[PInt 5]"]
  by (simp add: composable_or_def composable_def self_func_def elements_def)

lemma run_stages_append:
  "run_stages env h x (ss @ ts) =
     (case run_stages env h x ss of Inl e \<Rightarrow> Inl e | Inr y \<Rightarrow> run_stages env h y ts)"
  by (induction ss arbitrary: x) (auto split: sum.splits)

lemma sum_case_id: "(case m of Inl e \<Rightarrow> Inl e | Inr y \<Rightarrow> Inr y) = m"
  by (cases m) auto

lemma build_runs:
  assumes "\<forall>s\<in>set (stages e). s < length h0"
  shows "\<exists>p ext'. build (h0 @ ext) e = (PComposable p, h0 @ ext @ ext')
           \<and> p < length (h0 @ ext @ ext')
           \<and> (\<forall>x. self_func env (h0 @ ext @ ext') p [x] = run_stages env h0 x (stages e))"
  using assms
proof (induction e arbitrary: ext)
  case (Stage s)
  then have "s < length h0" by simp
  then have "self_func env (h0 @ ext) s [x] = run_stages env h0 x [s]" for x
    by (simp add: self_func_extend sum_case_id cong: sum.case_cong)
  then have "build (h0 @ ext) (Stage s) = (PComposable s, h0 @ ext @ [])
      \<and> s < length (h0 @ ext @ [])
      \<and> (\<forall>x. self_func env (h0 @ ext @ []) s [x] = run_stages env h0 x (stages (Stage s)))"
    using \<open>s < length h0\<close> by simp
  then show ?case by blast
next
  case (Pipe l r)
  from Pipe.IH(1) [of ext] Pipe.prems
  obtain a e1 where l: "build (h0 @ ext) l = (PComposable a, h0 @ ext @ e1)"
    and a: "a < length (h0 @ ext @ e1)"
    and run_l: "\<And>x. self_func env (h0 @ ext @ e1) a [x] = run_stages env h0 x (stages l)"
    by auto
  from Pipe.IH(2) [of "ext @ e1"] Pipe.prems
  obtain b e2 where r: "build (h0 @ ext @ e1) r = (PComposable b, h0 @ ext @ e1 @ e2)"
    and b: "b < length (h0 @ ext @ e1 @ e2)"
    and run_r: "\<And>x. self_func env (h0 @ ext @ e1 @ e2) b [x] = run_stages env h0 x (stages r)"
    by auto
  define h2 where "h2 = h0 @ ext @ e1 @ e2"
  define new where "new = PLambda_then (PComposable b) a"
  have a2: "a < length h2"
    using a by (simp add: h2_def)
  have "self_func env ((h0 @ ext @ e1) @ e2) a [x] = self_func env (h0 @ ext @ e1) a [x]" for x
    using a by (rule self_func_extend)
  then have run_a: "self_func env h2 a [x] = run_stages env h0 x (stages l)" for x
    using run_l by (simp add: h2_def)
  have run_b: "self_func env h2 b [x] = run_stages env h0 x (stages r)" for x
    using run_r by (simp add: h2_def)
  have "self_func env (h2 @ [new]) (length h2) [x] =
      (case self_func env h2 a [x] of Inl e \<Rightarrow> Inl e | Inr y \<Rightarrow> self_func env h2 b [y])" for x
    using a2 by (simp add: self_func_def new_def cong: sum.case_cong)
  then have run: "self_func env (h2 @ [new]) (length h2) [x] =
      run_stages env h0 x (stages (Pipe l r))" for x
    by (simp add: run_a run_b run_stages_append cong: sum.case_cong)
  have "build (h0 @ ext) (Pipe l r) = (PComposable (length h2), h2 @ [new])"
    using l r by (simp add: h2_def new_def composable_or_callable)
  then have "build (h0 @ ext) (Pipe l r) = (PComposable (length h2), h0 @ ext @ (e1 @ e2 @ [new]))
      \<and> length h2 < length (h0 @ ext @ (e1 @ e2 @ [new]))
      \<and> (\<forall>x. self_func env (h0 @ ext @ (e1 @ e2 @ [new])) (length h2) [x] =
            run_stages env h0 x (stages (Pipe l r)))"
    using run by (simp add: h2_def)
  then show ?case by blast
qed

lemma build_run_stages:
  assumes "\<forall>s\<in>set (stages e). s < length h"
  shows "\<exists>p h'. build h e = (PComposable p, h')
           \<and> (\<forall>x. call env h' (PComposable p) [x] = run_stages env h x (stages e))"
proof -
  from build_runs [OF assms, of "[]" env]
  obtain p ext' where "build h e = (PComposable p, h @ ext')"
    and "\<forall>x. self_func env (h @ ext') p [x] = run_stages env h x (stages e)"
    by auto
  then show ?thesis
    by (auto simp: call_PComposable simp del: call.simps)
qed

text \<open>
  The same for any number of stages: two expressions with the same stages from left
  to right evaluate to instances that give the same result, or raise the same
  exception, on every argument, however the expressions are parenthesised.
\<close>

lemma any_grouping:
  assumes "\<forall>s\<in>set (stages e1). s < length h" and "stages e1 = stages e2"
  shows "call env (snd (build h e1)) (fst (build h e1)) [x] =
         call env (snd (build h e2)) (fst (build h e2)) [x]"
proof -
  from build_run_stages [OF assms(1), of env]
  obtain p1 h1 where 1: "build h e1 = (PComposable p1, h1)"
    "call env h1 (PComposable p1) [x] = run_stages env h x (stages e1)"
    by blast
  from assms have "\<forall>s\<in>set (stages e2). s < length h" by simp
  from build_run_stages [OF this, of env]
  obtain p2 h2 where 2: "build h e2 = (PComposable p2, h2)"
    "call env h2 (PComposable p2) [x] = run_stages env h x (stages e2)"
    by blast
  from 1 2 assms(2) show ?thesis by (simp del: call.simps)
qed

text \<open>
  Piping a value through the stages one by one, as \<open>get_people\<close> does in
  \<open>x | f | g\<close>, runs \<open>__ror__\<close> at each stage, which forces the elements of a
  container each time. It gives what piping the value into the chain \<open>f | g\<close> gives
  when the value that \<open>f\<close> returns is one that \<open>__ror__\<close> passes on as it is.
\<close>

lemma piping_in_stages:
  assumes "f < length h" and "g < length h"
    and "\<forall>i\<in>set (elements x). lives_in (length h) i"
    and "\<And>a y. force_args env h x = Inr a \<Longrightarrow> self_func env h f [a] = Inr y \<Longrightarrow>
           force_args env h y = Inr y"
  shows "composable_ror env (snd (composable_or h f (PComposable g))) (length h) x =
     (case composable_ror env h f x of
        Inl e \<Rightarrow> Inl e
      | Inr y \<Rightarrow> composable_ror env h g y)"
proof -
  define new where "new = PLambda_then (PComposable g) f"
  have heap: "snd (composable_or h f (PComposable g)) = h @ [new]"
    by (simp add: composable_or_callable new_def)
  have args: "force_args env (h @ [new]) x = force_args env h x"
    using assms(3) by (rule force_args_extend)
  have chain: "self_func env (h @ [new]) (length h) [a] =
      (case self_func env h f [a] of Inl e \<Rightarrow> Inl e | Inr y \<Rightarrow> self_func env h g [y])" for a
    using assms(1,2) by (simp add: self_func_def new_def cong: sum.case_cong)
  show ?thesis
  proof (cases "force_args env h x")
    case (Inl e)
    then show ?thesis
      by (simp add: heap args composable_ror_def)
  next
    case a: (Inr a)
    show ?thesis
    proof (cases "self_func env h f [a]")
      case (Inl e)
      with a show ?thesis
        by (simp add: heap args composable_ror_def chain)
    next
      case (Inr y)
      with a assms(4) have "force_args env h y = Inr y"
        by blast
      with a Inr show ?thesis
        by (simp add: heap args composable_ror_def chain)
    qed
  qed
qed

lemma comprehension_force:
  "list_all (forceable env h) xs \<Longrightarrow>
   comprehension (force env h) xs = Inr (map (forced env h) xs)"
proof (induction xs)
  case Nil
  show ?case by simp
next
  case (Cons i xs)
  then have "force env h i = Inr (forced env h i)"
    by (cases "call env h i []") (auto simp: force_def forceable_def forced_def)
  with Cons show ?case by simp
qed

lemma comprehension_force_item:
  "list_all (forceable env h) (map snd kvs) \<Longrightarrow>
   comprehension (force_item env h) kvs =
     Inr (map (\<lambda>kv. (fst kv, forced env h (snd kv))) kvs)"
proof (induction kvs)
  case Nil
  show ?case by simp
next
  case (Cons kv kvs)
  then have "force env h (snd kv) = Inr (forced env h (snd kv))"
    by (cases "call env h (snd kv) []") (auto simp: force_def forceable_def forced_def)
  with Cons show ?case by (simp add: force_item_def)
qed



lemma force_args_forceable:
  assumes "list_all (forceable env h) (elements x)"
  shows "\<exists>x'. force_args env h x = Inr x'"
proof (cases x)
  case (PList xs)
  with assms show ?thesis
    by (simp add: force_args_def elements_def comprehension_force)
next
  case (PTuple xs)
  with assms show ?thesis
    by (simp add: force_args_def elements_def comprehension_force)
next
  case (PDict kvs)
  with assms show ?thesis
    by (simp add: force_args_def elements_def comprehension_force_item)
qed (simp_all add: force_args_def)

text \<open>
  C10. For an instance \<open>self\<close> of the heap and a value \<open>c\<close> that is not callable,
  \<open>self | c\<close> is a new instance that returns \<open>self.func(c)\<close> whatever it is called
  on, and whatever is piped into it (once \<open>__ror__\<close> has forced the elements of a
  container). A dict piped into an instance reaches \<open>self.func\<close> with the keys it had,
  callable or not, and with its callable values replaced by what they return.
\<close>

theorem chaining_constant:
  assumes "self < length h" and "\<not> callable c"
  shows "(case composable_or h self c of
            (p, h') \<Rightarrow>
              p = PComposable (length h)
              \<and> call env h' p [x] = self_func env h' self [c]
              \<and> (list_all (forceable env h') (elements x) \<longrightarrow>
                   composable_ror env h' (length h) x = self_func env h' self [c]))
         \<and> (list_all (forceable env h) (map snd kvs) \<longrightarrow>
              composable_ror env h self (PDict kvs) =
                self_func env h self
                  [PDict (zip (map fst kvs) (map (forced env h) (map snd kvs)))])"
proof -
  define h' where "h' = h @ [PLambda_const self c]"
  have new: "self_func env h' (length h) [y] = self_func env h' self [c]" for y
    using assms(1) by (simp add: h'_def self_func_def nth_append)
  have piped: "composable_ror env h' (length h) x = self_func env h' self [c]"
    if "list_all (forceable env h') (elements x)"
  proof -
    from force_args_forceable [OF that] obtain x' where "force_args env h' x = Inr x'"
      by blast
    then show ?thesis
      by (simp add: composable_ror_def new)
  qed
  have "zip (map fst kvs) (map (forced env h) (map snd kvs)) =
      map (\<lambda>kv. (fst kv, forced env h (snd kv))) kvs"
    by (induction kvs) auto
  then have dict: "list_all (forceable env h) (map snd kvs) \<longrightarrow>
      composable_ror env h self (PDict kvs) =
        self_func env h self [PDict (zip (map fst kvs) (map (forced env h) (map snd kvs)))]"
    by (simp add: composable_ror_def force_args_def comprehension_force_item)
  have "composable_or h self c = (PComposable (length h), h')"
    using assms(2) by (simp add: composable_or_constant h'_def)
  moreover have "call env h' (PComposable (length h)) [x] = self_func env h' self [c]"
    using new [of x] by (simp only: call_PComposable)
  ultimately show ?thesis
    using piped dict by (simp del: call.simps)
qed

theorem chaining_constant_witness:
  "composable_or [PFunction ''double''] 0 (PInt 4) =
     (PComposable 1, [PFunction ''double'', PLambda_const 0 (PInt 4)])
   \<and> call example_env [PFunction ''double'', PLambda_const 0 (PInt 4)] (PComposable 1) [PInt 100] =
       Inr (PInt 8)
   \<and> composable_ror example_env [PFunction ''double'', PLambda_const 0 (PInt 4)] 1
        (PList [PFunction ''seven'']) = Inr (PInt 8)
   \<and> composable_ror example_env [PFunction ''same''] 0
        (PDict [(PStr ''a'', PFunction ''seven''), (PFunction ''seven'', PInt 2)]) =
     Inr (PDict [(PStr ''a'', PInt 7), (PFunction ''seven'', PInt 2)])"
  using chaining_constant [of 0 "[PFunction ''double'']" "PInt 4" example_env "PInt 100"]
    chaining_constant
      [of 0 "[PFunction ''double'']" "PInt 4" example_env "PList [PFunction ''seven'']"]
    chaining_constant
      [of 0 "[PFunction ''same'']" "PInt 4" example_env "PInt 100"
          "[(PStr ''a'', PFunction ''seven''), (PFunction ''seven'', PInt 2)]"]
  by (simp add: composable_or_def composable_def self_func_def forceable_def forced_def
      elements_def)

end
